theory Spec2Isabelle
  imports Complex_Main "HOL-Library.Multiset"
begin

section \<open>ParkPulse: tiled vehicle detection and reliability-gated capacity estimation\<close>

text \<open>
  A shallow embedding of \<^verbatim>\<open>parkpulse/estimate.py\<close>, of the tiling, collection and
  post-processing stages of \<^verbatim>\<open>parkpulse/detect.py\<close>, and of the per-area estimate
  computed in \<^verbatim>\<open>app.py\<close>.

  Numbers. Python's \<^verbatim>\<open>int\<close> is \<^typ>\<open>int\<close>. Python's \<^verbatim>\<open>float\<close> (and numpy's float32
  box coordinates) are modelled as exact rationals, \<^typ>\<open>rat\<close>: every theorem below is a
  statement about the arithmetic the code writes down, evaluated without rounding error,
  overflow, infinities or NaN.
\<close>

subsection \<open>Errors\<close>

text \<open>
  \<open>ValueError\<close> is what \<^verbatim>\<open>estimate.py\<close> raises, with its message. \<open>InferenceFailure\<close>
  stands for any exception leaving \<^verbatim>\<open>model.predict\<close>. \<open>IndexError\<close> is Python's error
  for an out-of-range array index. \<open>ConfigurationError\<close> is the error the specification
  names for invalid tiling parameters; no statement of the source raises it.
\<close>

datatype error =
    ValueError string
  | InferenceFailure
  | IndexError
  | ConfigurationError

subsection \<open>Python numeric primitives\<close>

definition py_int :: "rat \<Rightarrow> int" where
  \<comment> \<open>\<^verbatim>\<open>int(x)\<close> on a float: truncation towards zero.\<close>
  "py_int x = (if 0 \<le> x then \<lfloor>x\<rfloor> else \<lceil>x\<rceil>)"

definition py_round :: "rat \<Rightarrow> int" where
  \<comment> \<open>\<^verbatim>\<open>round(x)\<close> with one argument: nearest integer, ties to the even one.\<close>
  "py_round x =
     (let f = \<lfloor>x\<rfloor>; d = x - of_int f
      in if d < 1 / 2 then f
         else if 1 / 2 < d then f + 1
         else if even f then f else f + 1)"

definition py_floordiv :: "rat \<Rightarrow> rat \<Rightarrow> rat" where
  \<comment> \<open>\<^verbatim>\<open>a // b\<close> on floats with \<open>b \<noteq> 0\<close>: the floor of the quotient, as a float.\<close>
  "py_floordiv a b = of_int \<lfloor>a / b\<rfloor>"

subsection \<open>\<^verbatim>\<open>estimate.py\<close>\<close>

definition estimate_spots_from_cars :: "int \<Rightarrow> rat \<Rightarrow> error + int" where
  "estimate_spots_from_cars n_cars occupancy =
     (if occupancy \<le> 0 \<or> 1 < occupancy then Inl (ValueError ''occupancy must be in (0, 1]'')
      else if n_cars < 0 then Inl (ValueError ''n_cars must be non-negative'')
      else Inr (max n_cars \<lceil>of_int n_cars / occupancy\<rceil>))"

definition estimate_spots_from_area :: "rat \<Rightarrow> rat \<Rightarrow> error + int" where
  "estimate_spots_from_area area_m2 m2_per_spot =
     (if m2_per_spot \<le> 0 then Inl (ValueError ''m2_per_spot must be positive'')
      else if area_m2 < 0 then Inl (ValueError ''area_m2 must be non-negative'')
      else Inr (max 0 (py_int (py_floordiv area_m2 m2_per_spot))))"

subsection \<open>\<^verbatim>\<open>app.py\<close>: uncertainty, coverage gate and blending\<close>

definition capacity_uncertainty :: "int \<Rightarrow> int \<Rightarrow> int" where
  \<comment> \<open>Lines 236--237.\<close>
  "capacity_uncertainty spots_from_area spots_from_cars =
     (let spread = \<bar>spots_from_area - spots_from_cars\<bar>
      in max 1 (py_round (max (of_int spread / 2)
                              ((2 / 10) * of_int (spots_from_area + spots_from_cars) / 2))))"

definition coverage :: "int \<Rightarrow> int \<Rightarrow> rat" where
  \<comment> \<open>Line 247.\<close>
  "coverage n_cars spots_from_area =
     (if 0 < spots_from_area then of_int n_cars / of_int spots_from_area else 0)"

definition ramp :: "rat \<Rightarrow> rat \<Rightarrow> rat \<Rightarrow> rat" where
  \<comment> \<open>Lines 255--256, for a coverage \<open>c\<close>.\<close>
  "ramp c occupancy min_coverage =
     (let denom = max (1 / 1000000) (occupancy - min_coverage)
      in min 1 (max 0 ((c - min_coverage) / denom)))"

datatype rel_note = Unreliable | Blended rat

record blend_result =
  combined :: int
  weight_cars :: rat
  reliability_note :: rel_note

definition blend :: "int \<Rightarrow> int \<Rightarrow> int \<Rightarrow> rat \<Rightarrow> rat \<Rightarrow> rat \<Rightarrow> blend_result" where
  \<comment> \<open>Lines 246--259.\<close>
  "blend n_cars spots_from_area spots_from_cars occupancy min_coverage blend_strength =
     (let c = coverage n_cars spots_from_area
      in if n_cars = 0 \<or> c < min_coverage
         then \<lparr>combined = spots_from_area, weight_cars = 0, reliability_note = Unreliable\<rparr>
         else (let w = blend_strength * ramp c occupancy min_coverage
               in \<lparr>combined = py_round ((1 - w) * of_int spots_from_area
                                          + w * of_int spots_from_cars),
                   weight_cars = w,
                   reliability_note = Blended w\<rparr>))"

subsection \<open>\<^verbatim>\<open>detect.py\<close>: the tile partitioner\<close>

function py_range :: "int \<Rightarrow> int \<Rightarrow> int \<Rightarrow> int list" where
  \<comment> \<open>\<^verbatim>\<open>range(start, stop, step)\<close> for a step of at least 1, the only steps
      \<^verbatim>\<open>detect_cars\<close> passes (\<^verbatim>\<open>step = max(1, tile - overlap)\<close>).\<close>
  "py_range start stop step =
     (if step < 1 \<or> stop \<le> start then [] else start # py_range (start + step) stop step)"
  by pat_completeness auto
termination
  by (relation "measure (\<lambda>(start, stop, step). nat (stop - start))") auto

declare py_range.simps [simp del]

datatype window = Window (wy0: int) (wy1: int) (wx0: int) (wx1: int)
  \<comment> \<open>The patch \<^verbatim>\<open>image_rgb_up[y0:y1, x0:x1]\<close>.\<close>

definition tile_windows :: "int \<Rightarrow> int \<Rightarrow> int \<Rightarrow> int \<Rightarrow> window list" where
  \<comment> \<open>Lines 85 and 91--95: the windows in the order the two loops visit them.\<close>
  "tile_windows H W tile overlap =
     (let step = max 1 (tile - overlap)
      in concat (map (\<lambda>y0. map (\<lambda>x0. Window y0 (min (y0 + tile) H) x0 (min (x0 + tile) W))
                                (py_range 0 W step))
                     (py_range 0 H step)))"

definition tile_partitioner :: "int \<Rightarrow> int \<Rightarrow> int \<Rightarrow> int \<Rightarrow> error + window list" where
  \<comment> \<open>The partitioner as a fallible operation. The source checks none of its parameters
      and the loops raise nothing, so every call is a normal return.\<close>
  "tile_partitioner H W tile overlap = Inr (tile_windows H W tile overlap)"

definition pixels :: "window \<Rightarrow> (int \<times> int) set" where
  \<comment> \<open>The (row, column) positions a window with non-negative bounds selects.\<close>
  "pixels w = {wy0 w ..< wy1 w} \<times> {wx0 w ..< wx1 w}"

subsection \<open>Boxes and non-max suppression\<close>

type_synonym box = "rat \<times> rat \<times> rat \<times> rat"
  \<comment> \<open>\<open>(x1, y1, x2, y2)\<close>\<close>

definition box_area :: "box \<Rightarrow> rat" where
  "box_area b = (case b of (x1, y1, x2, y2) \<Rightarrow> (x2 - x1) * (y2 - y1))"

definition iou :: "box \<Rightarrow> box \<Rightarrow> rat" where
  \<comment> \<open>Intersection over union. For two boxes of zero area the quotient is \<open>0 / 0\<close>, which
      is \<open>0\<close> here and NaN in floating point; neither exceeds a threshold.\<close>
  "iou a b =
     (case a of (ax1, ay1, ax2, ay2) \<Rightarrow> case b of (bx1, by1, bx2, by2) \<Rightarrow>
        let w = max 0 (min ax2 bx2 - max ax1 bx1);
            h = max 0 (min ay2 by2 - max ay1 by1);
            inter = w * h
        in inter / (box_area a + box_area b - inter))"

fun greedy_keep :: "('a \<Rightarrow> 'a \<Rightarrow> bool) \<Rightarrow> 'a list \<Rightarrow> 'a list" where
  \<comment> \<open>Keep the first remaining candidate, discard the candidates it suppresses, repeat.\<close>
  "greedy_keep suppresses [] = []"
| "greedy_keep suppresses (i # rest) =
     i # greedy_keep suppresses (filter (\<lambda>j. \<not> suppresses i j) rest)"

definition nms :: "box list \<Rightarrow> rat list \<Rightarrow> rat \<Rightarrow> nat list" where
  \<comment> \<open>Modelled from the spec: \<^verbatim>\<open>torchvision.ops.nms\<close>, called at line 131, is a library
      function whose body is not part of the sources. Section 4.4: sort by confidence
      descending; repeatedly keep the highest-remaining box and discard any unkept box
      whose IoU with it exceeds the threshold. The result is the kept indices, highest
      confidence first; equal confidences stay in input order.\<close>
  "nms boxes scores iou_threshold =
     greedy_keep (\<lambda>i j. iou_threshold < iou (boxes ! i) (boxes ! j))
                 (sort_key (\<lambda>i. - (scores ! i)) [0 ..< length boxes])"

definition dedupe :: "rat \<Rightarrow> (box \<times> rat) list \<Rightarrow> (box \<times> rat) list" where
  \<comment> \<open>The cross-tile deduplicator on a list of (box, confidence): the detections at the
      indices \<open>nms\<close> keeps, as lines 131 and 136 select them.\<close>
  "dedupe thr ds = map (\<lambda>i. ds ! i) (nms (map fst ds) (map snd ds) thr)"

subsection \<open>\<^verbatim>\<open>detect.py\<close>: collecting the tiles\<close>

type_synonym raw = "box \<times> rat \<times> rat"
  \<comment> \<open>One row of the parallel arrays \<^verbatim>\<open>boxes\<close>, \<^verbatim>\<open>scores\<close>, \<^verbatim>\<open>clses\<close>.\<close>

definition shift_box :: "window \<Rightarrow> raw \<Rightarrow> raw" where
  \<comment> \<open>Lines 114--115.\<close>
  "shift_box w r =
     (case r of ((x1, y1, x2, y2), score, cls) \<Rightarrow>
        ((x1 + of_int (wx0 w), y1 + of_int (wy0 w), x2 + of_int (wx0 w), y2 + of_int (wy0 w)),
         score, cls))"

fun collect_tiles :: "(window \<Rightarrow> error + raw list) \<Rightarrow> window list \<Rightarrow> raw list \<Rightarrow> error + raw list" where
  \<comment> \<open>Lines 91--119. \<open>predict w\<close> is the model's answer on the patch \<open>w\<close>, or the exception
      the call raises; nothing in the loop catches it. A tile without boxes appends
      nothing.\<close>
  "collect_tiles predict [] acc = Inr acc"
| "collect_tiles predict (w # ws) acc =
     (case predict w of
        Inl e \<Rightarrow> Inl e
      | Inr r \<Rightarrow> collect_tiles predict ws (acc @ map (shift_box w) r))"

subsection \<open>\<^verbatim>\<open>detect.py\<close>: class, scale-back and size filters\<close>

record detection =
  d_x1 :: int
  d_y1 :: int
  d_x2 :: int
  d_y2 :: int
  d_conf :: rat
  d_cls_id :: int
  d_cls_name :: string

definition VEHICLE_CLASS_NAMES :: "string set" where
  "VEHICLE_CLASS_NAMES = {''car'', ''van'', ''truck'', ''bus'', ''motor''}"

definition scale_back :: "rat \<Rightarrow> box \<Rightarrow> box" where
  \<comment> \<open>Lines 146--151.\<close>
  "scale_back scale b =
     (case b of (x1, y1, x2, y2) \<Rightarrow>
        if scale \<noteq> 1 then (x1 / scale, y1 / scale, x2 / scale, y2 / scale) else b)"

definition plausible :: "box \<Rightarrow> bool" where
  \<comment> \<open>Lines 153--166, on the coordinates the loop holds at that point.\<close>
  "plausible b =
     (case b of (x1, y1, x2, y2) \<Rightarrow>
        let w = x2 - x1;
            h = y2 - y1;
            area = w * h;
            aspect = w / max 1 h
        in if w < 6 \<or> h < 6 then False
           else if 160 < w \<or> 160 < h then False
           else if 160 * 160 < area then False
           else if aspect < 1 / 4 \<or> 4 < aspect then False
           else True)"

definition to_detection :: "(int \<Rightarrow> string) \<Rightarrow> raw \<Rightarrow> detection" where
  \<comment> \<open>Lines 137--138 and 168--178: the dictionary appended for a row that passed.\<close>
  "to_detection cls_name_of r =
     (case r of ((x1, y1, x2, y2), score, cls) \<Rightarrow>
        \<lparr>d_x1 = py_int x1, d_y1 = py_int y1, d_x2 = py_int x2, d_y2 = py_int y2,
         d_conf = score, d_cls_id = py_int cls, d_cls_name = cls_name_of (py_int cls)\<rparr>)"

definition is_vehicle :: "(int \<Rightarrow> string) \<Rightarrow> raw \<Rightarrow> bool" where
  \<comment> \<open>Lines 137--142. \<open>cls_name_of cls_id\<close> is
      \<^verbatim>\<open>str(names.get(cls_id, cls_id)).lower()\<close>.\<close>
  "is_vehicle cls_name_of r =
     (case r of (b, score, cls) \<Rightarrow> cls_name_of (py_int cls) \<in> VEHICLE_CLASS_NAMES)"

definition emit :: "(int \<Rightarrow> string) \<Rightarrow> rat \<Rightarrow> raw \<Rightarrow> detection option" where
  \<comment> \<open>The body of the loop at lines 136--178 for one kept row, in the order of the
      source: class test, scale-back, size tests, append. \<open>None\<close> is \<^verbatim>\<open>continue\<close>.\<close>
  "emit cls_name_of scale r =
     (case r of (b, score, cls) \<Rightarrow>
        if \<not> is_vehicle cls_name_of r then None
        else (let b' = scale_back scale b
              in if \<not> plausible b' then None
                 else Some (to_detection cls_name_of (b', score, cls))))"

fun post_loop :: "(int \<Rightarrow> string) \<Rightarrow> rat \<Rightarrow> raw list \<Rightarrow> nat list \<Rightarrow> error + detection list" where
  \<comment> \<open>Lines 135--180: \<^verbatim>\<open>for i in keep\<close>. Indexing past the arrays raises.\<close>
  "post_loop cls_name_of scale raws [] = Inr []"
| "post_loop cls_name_of scale raws (i # keep) =
     (if length raws \<le> i then Inl IndexError
      else (case post_loop cls_name_of scale raws keep of
              Inl e \<Rightarrow> Inl e
            | Inr out \<Rightarrow>
                (case emit cls_name_of scale (raws ! i) of
                   None \<Rightarrow> Inr out
                 | Some d \<Rightarrow> Inr (d # out))))"

definition detect_tail :: "(int \<Rightarrow> string) \<Rightarrow> rat \<Rightarrow> raw list \<Rightarrow> error + detection list" where
  \<comment> \<open>Lines 121--180: what \<^verbatim>\<open>detect_cars\<close> does with the collected rows, which are in
      the coordinates of the image that was tiled.\<close>
  "detect_tail cls_name_of scale raws =
     (if raws = [] then Inr []
      else post_loop cls_name_of scale raws
             (nms (map fst raws) (map (\<lambda>r. fst (snd r)) raws) (35 / 100)))"

definition upscale_factor :: "bool \<Rightarrow> int \<Rightarrow> int \<Rightarrow> rat" where
  \<comment> \<open>Lines 74--76.\<close>
  "upscale_factor upscale_small H W = (if upscale_small \<and> min H W < 2048 then 2 else 1)"

definition upscaled_dim :: "bool \<Rightarrow> int \<Rightarrow> int \<Rightarrow> int \<Rightarrow> int" where
  \<comment> \<open>Lines 77--81 and 84: a side \<open>n\<close> of the image that is tiled. Resizing by 2 doubles
      both sides.\<close>
  "upscaled_dim upscale_small H W n =
     (if upscale_factor upscale_small H W = 2 then 2 * n else n)"

definition detect_cars ::
  "(window \<Rightarrow> error + raw list) \<Rightarrow> (int \<Rightarrow> string) \<Rightarrow> int \<Rightarrow> int \<Rightarrow> int \<Rightarrow> int \<Rightarrow> bool
     \<Rightarrow> error + detection list" where
  \<comment> \<open>\<^verbatim>\<open>detect_cars\<close> for an image of height \<open>H\<close> and width \<open>W\<close>; \<open>predict\<close> answers on
      windows of the image that is tiled.\<close>
  "detect_cars predict cls_name_of H W tile overlap upscale_small =
     (let scale = upscale_factor upscale_small H W;
          H_up = upscaled_dim upscale_small H W H;
          W_up = upscaled_dim upscale_small H W W
      in case collect_tiles predict (tile_windows H_up W_up tile overlap) [] of
           Inl e \<Rightarrow> Inl e
         | Inr raws \<Rightarrow> detect_tail cls_name_of scale raws)"

subsection \<open>\<^verbatim>\<open>app.py\<close>: one area\<close>

definition app_detections ::
  "(window \<Rightarrow> error + raw list) \<Rightarrow> (int \<Rightarrow> string) \<Rightarrow> int \<Rightarrow> int \<Rightarrow> int \<Rightarrow> int
     \<Rightarrow> detection list" where
  \<comment> \<open>Lines 209--220: any exception from \<^verbatim>\<open>detect_cars\<close> leaves \<^verbatim>\<open>detections = []\<close>.\<close>
  "app_detections predict cls_name_of H W tile overlap =
     (case detect_cars predict cls_name_of H W tile overlap True of
        Inl e \<Rightarrow> []
      | Inr ds \<Rightarrow> ds)"

record area_result =
  r_n_cars :: int
  r_spots_from_cars :: int
  r_spots_from_area :: int
  r_uncertainty :: int
  r_blend :: blend_result

definition area_estimate ::
  "(window \<Rightarrow> error + raw list) \<Rightarrow> (int \<Rightarrow> string) \<Rightarrow> int \<Rightarrow> int \<Rightarrow> int \<Rightarrow> int
     \<Rightarrow> rat \<Rightarrow> rat \<Rightarrow> rat \<Rightarrow> rat \<Rightarrow> error + area_result" where
  \<comment> \<open>Lines 209--259 for one area; the two estimators' exceptions are not caught.\<close>
  "area_estimate predict cls_name_of H W tile overlap area_m2 occupancy min_coverage blend_strength =
     (let detections = app_detections predict cls_name_of H W tile overlap;
          n = int (length detections)
      in case estimate_spots_from_cars n occupancy of
           Inl e \<Rightarrow> Inl e
         | Inr sc \<Rightarrow>
             (case estimate_spots_from_area area_m2 30 of
                Inl e \<Rightarrow> Inl e
              | Inr sa \<Rightarrow>
                  Inr \<lparr>r_n_cars = n, r_spots_from_cars = sc, r_spots_from_area = sa,
                       r_uncertainty = capacity_uncertainty sa sc,
                       r_blend = blend n sa sc occupancy min_coverage blend_strength\<rparr>))"

subsection \<open>Example inputs\<close>

definition example_names :: "int \<Rightarrow> string" where
  \<comment> \<open>A class table in the VisDrone style, lower-cased; an unknown id prints as
      something that is no vehicle name.\<close>
  "example_names cls_id =
     (if cls_id = 0 then ''pedestrian'' else if cls_id = 3 then ''car''
      else if cls_id = 4 then ''van'' else if cls_id = 5 then ''truck''
      else if cls_id = 8 then ''bus'' else if cls_id = 9 then ''motor'' else ''other'')"

definition example_car :: raw where
  \<comment> \<open>A car of 60 by 120 pixels in tile coordinates, confidence 0.9, class 3.\<close>
  "example_car = ((100, 100, 160, 220), 9 / 10, 3)"

definition predict_last_fails :: "window \<Rightarrow> error + raw list" where
  \<comment> \<open>A model that finds one car in the first tile of a 2048 by 2048 image, nothing
      in the others, and raises on the last tile.\<close>
  "predict_last_fails w =
     (if w = Window 0 1024 0 1024 then Inr [example_car]
      else if w = Window 1536 2048 1536 2048 then Inl InferenceFailure
      else Inr [])"

definition predict_last_empty :: "window \<Rightarrow> error + raw list" where
  \<comment> \<open>The same model with the last tile answering no boxes instead of raising.\<close>
  "predict_last_empty w =
     (if w = Window 0 1024 0 1024 then Inr [example_car] else Inr [])"

section \<open>The capacity estimators\<close>




text \<open>
  C9. For every \<open>area_m2 \<ge> 0\<close> and every fixed \<open>m2_per_spot > 0\<close>,
  \<open>estimate_spots_from_area\<close> returns normally with a result \<open>\<ge> 0\<close>, and a larger area
  never gives a smaller result.
\<close>

theorem estimate_spots_from_area_mono:
  assumes "0 \<le> area_m2" "area_m2 \<le> area_m2'" "0 < m2_per_spot"
  shows "\<exists>r r'. estimate_spots_from_area area_m2 m2_per_spot = Inr r
              \<and> estimate_spots_from_area area_m2' m2_per_spot = Inr r'
              \<and> 0 \<le> r \<and> r \<le> r'"
proof -
  have "area_m2 / m2_per_spot \<le> area_m2' / m2_per_spot"
    using assms by (simp add: divide_right_mono)
  then have "\<lfloor>area_m2 / m2_per_spot\<rfloor> \<le> \<lfloor>area_m2' / m2_per_spot\<rfloor>"
    by (rule floor_mono)
  then show ?thesis
    using assms by (simp add: estimate_spots_from_area_def py_floordiv_def py_int_def)
qed

theorem estimate_spots_from_area_mono_witness:
  "(0::rat) \<le> 1800 \<and> (1800::rat) \<le> 1845 \<and> (0::rat) < 30
   \<and> (\<exists>r r'. estimate_spots_from_area 1800 30 = Inr r
              \<and> estimate_spots_from_area 1845 30 = Inr r'
              \<and> 0 \<le> r \<and> r \<le> r')"
  using estimate_spots_from_area_mono [of 1800 1845 30] by simp

section \<open>The reliability blender\<close>

text \<open>
  C1. Whenever \<open>n_cars = 0\<close>, or the coverage \<open>n_cars / spots_from_area\<close> (taken as \<open>0\<close>
  when \<open>spots_from_area\<close> is not positive) is below \<open>min_coverage\<close>, the blender returns
  \<open>combined = spots_from_area\<close>, \<open>weight_cars = 0\<close> and the Unreliable note, whatever
  \<open>spots_from_cars\<close>, \<open>occupancy\<close> and \<open>blend_strength\<close> are.
\<close>

theorem blend_gate_unreliable:
  assumes "n_cars = 0 \<or> coverage n_cars spots_from_area < min_coverage"
  shows "combined (blend n_cars spots_from_area spots_from_cars occupancy min_coverage blend_strength)
           = spots_from_area
       \<and> weight_cars (blend n_cars spots_from_area spots_from_cars occupancy min_coverage blend_strength)
           = 0
       \<and> reliability_note (blend n_cars spots_from_area spots_from_cars occupancy min_coverage blend_strength)
           = Unreliable"
  using assms by (auto simp add: blend_def Let_def)

lemma coverage_1_60: "coverage 1 60 < 5 / 100"
  by (simp add: coverage_def)

theorem blend_gate_unreliable_witness:
  "(0 = (0::int) \<or> coverage 0 0 < 5 / 100)
   \<and> combined (blend 0 0 0 (6 / 10) (5 / 100) (6 / 10)) = 0
   \<and> weight_cars (blend 0 0 0 (6 / 10) (5 / 100) (6 / 10)) = 0
   \<and> ((1::int) = 0 \<or> coverage 1 60 < 5 / 100)
   \<and> combined (blend 1 60 2 (6 / 10) (5 / 100) (6 / 10)) = 60
   \<and> weight_cars (blend 1 60 2 (6 / 10) (5 / 100) (6 / 10)) = 0"
  using blend_gate_unreliable [of 0 0 "5 / 100" 0 "6 / 10" "6 / 10"]
        blend_gate_unreliable [of 1 60 "5 / 100" 2 "6 / 10" "6 / 10"] coverage_1_60
  by simp

text \<open>
  C5. The scenario \<open>n_cars = 40\<close>, \<open>spots_from_area = 60\<close>, \<open>occupancy = 0.6\<close>,
  \<open>min_coverage = 0.05\<close>, \<open>blend_strength = 0.6\<close>: \<open>spots_from_cars = 67\<close>, the coverage is
  \<open>40 / 60\<close>, the ramp saturates at \<open>1\<close>, \<open>weight_cars = 0.6\<close>, the weighted sum is \<open>64.2\<close>
  and the combined estimate is \<open>64\<close>.
\<close>

theorem blend_scenario:
  "estimate_spots_from_cars 40 (6 / 10) = Inr 67
   \<and> coverage 40 60 = 2 / 3
   \<and> ramp (coverage 40 60) (6 / 10) (5 / 100) = 1
   \<and> weight_cars (blend 40 60 67 (6 / 10) (5 / 100) (6 / 10)) = 6 / 10
   \<and> (1 - 6 / 10) * of_int 60 + (6 / 10) * of_int 67 = (321 / 5 :: rat)
   \<and> py_round (321 / 5) = 64
   \<and> combined (blend 40 60 67 (6 / 10) (5 / 100) (6 / 10)) = 64"
  by code_simp

text \<open>
  C10. The capacity uncertainty is at least \<open>1\<close> for every pair of estimates, without
  any condition; in particular it is \<open>1\<close> when both estimates are \<open>0\<close>.
\<close>

theorem capacity_uncertainty_ge_1:
  "1 \<le> capacity_uncertainty a c \<and> capacity_uncertainty 0 0 = 1"
proof
  show "1 \<le> capacity_uncertainty a c"
    by (simp add: capacity_uncertainty_def Let_def)
  show "capacity_uncertainty 0 0 = 1"
    by code_simp
qed

section \<open>The tile partitioner\<close>

lemma set_py_range:
  "1 \<le> step \<Longrightarrow>
   set (py_range start stop step) = {v. start \<le> v \<and> v < stop \<and> (v - start) mod step = 0}"
proof (induction start stop step rule: py_range.induct)
  case (1 start stop step)
  show ?case
  proof (cases "stop \<le> start")
    case True
    then show ?thesis
      by (subst py_range.simps) auto
  next
    case False
    with "1.prems" have go: "\<not> (step < 1 \<or> stop \<le> start)" by simp
    have ih: "set (py_range (start + step) stop step)
                = {v. start + step \<le> v \<and> v < stop \<and> (v - (start + step)) mod step = 0}"
      using "1.IH" [OF go "1.prems"] .
    have shift: "(v - (start + step)) mod step = (v - start) mod step" for v
    proof -
      have "v - (start + step) = (v - start) - step" by simp
      then show ?thesis by (simp only: minus_mod_self2)
    qed
    have far: "start + step \<le> v" if "start \<le> v" "v \<noteq> start" "(v - start) mod step = 0" for v
    proof -
      from that(3) have "step dvd (v - start)" by (simp add: dvd_eq_mod_eq_0)
      moreover have "0 < v - start" using that by simp
      ultimately have "step \<le> v - start" by (rule zdvd_imp_le)
      then show ?thesis by simp
    qed
    have "set (py_range start stop step) = insert start (set (py_range (start + step) stop step))"
      using go by (subst py_range.simps) simp
    also have "\<dots> = {v. start \<le> v \<and> v < stop \<and> (v - start) mod step = 0}"
      unfolding ih shift using False "1.prems" far by auto
    finally show ?thesis .
  qed
qed



lemma tile_windows_set:
  "set (tile_windows H W tile overlap) =
     (\<lambda>(y0, x0). Window y0 (min (y0 + tile) H) x0 (min (x0 + tile) W))
       ` (set (py_range 0 H (max 1 (tile - overlap))) \<times> set (py_range 0 W (max 1 (tile - overlap))))"
  by (auto simp add: tile_windows_def Let_def)

lemma origin_exists:
  assumes "1 \<le> step" "step \<le> tile" "0 \<le> y" "y < n"
  shows "\<exists>y0 \<in> set (py_range 0 n step). y0 \<le> y \<and> y < min (y0 + tile) n"
proof -
  let ?y0 = "y - y mod step"
  have pos: "0 < step" using assms(1) by simp
  have m: "0 \<le> y mod step" "y mod step < step"
    using pos by simp_all
  have "?y0 mod step = 0"
    by (simp add: minus_mod_eq_mult_div)
  moreover have "0 \<le> ?y0"
    using assms(3) pos by (simp add: zmod_le_nonneg_dividend)
  moreover have "?y0 < n" using m assms(4) by linarith
  ultimately have "?y0 \<in> set (py_range 0 n step)"
    using assms(1) by (simp add: set_py_range)
  moreover have "?y0 \<le> y" using m by linarith
  moreover have "y < min (?y0 + tile) n"
    using m assms(2,4) by simp
  ultimately show ?thesis by blast
qed

text \<open>
  C2. For every image height \<open>H > 0\<close>, width \<open>W > 0\<close>, \<open>tile > 0\<close> and
  \<open>0 \<le> overlap < tile\<close>, the union of the tile windows is exactly the set of pixel
  positions of the image: every pixel lies in some window, and no window reaches outside.
\<close>

theorem tile_windows_cover:
  assumes "0 < H" "0 < W" "0 < tile" "0 \<le> overlap" "overlap < tile"
  shows "(\<Union>w \<in> set (tile_windows H W tile overlap). pixels w) = {0 ..< H} \<times> {0 ..< W}"
proof -
  let ?step = "max 1 (tile - overlap)"
  have step: "1 \<le> ?step" "?step \<le> tile"
    using assms by simp_all
  show ?thesis
  proof (intro equalityI subsetI)
    fix p
    assume "p \<in> (\<Union>w \<in> set (tile_windows H W tile overlap). pixels w)"
    then obtain y0 x0 where
      o: "y0 \<in> set (py_range 0 H ?step)" "x0 \<in> set (py_range 0 W ?step)"
      and p: "p \<in> pixels (Window y0 (min (y0 + tile) H) x0 (min (x0 + tile) W))"
      unfolding tile_windows_set by auto
    from o have "0 \<le> y0" "0 \<le> x0"
      using step(1) by (simp_all add: set_py_range)
    with p show "p \<in> {0 ..< H} \<times> {0 ..< W}"
      by (auto simp add: pixels_def)
  next
    fix p :: "int \<times> int"
    assume "p \<in> {0 ..< H} \<times> {0 ..< W}"
    then obtain y x where p: "p = (y, x)" "0 \<le> y" "y < H" "0 \<le> x" "x < W"
      by auto
    obtain y0 where y0: "y0 \<in> set (py_range 0 H ?step)" "y0 \<le> y" "y < min (y0 + tile) H"
      using origin_exists [OF step p(2,3)] by blast
    obtain x0 where x0: "x0 \<in> set (py_range 0 W ?step)" "x0 \<le> x" "x < min (x0 + tile) W"
      using origin_exists [OF step p(4,5)] by blast
    have "Window y0 (min (y0 + tile) H) x0 (min (x0 + tile) W) \<in> set (tile_windows H W tile overlap)"
      unfolding tile_windows_set using y0(1) x0(1) by force
    moreover have "p \<in> pixels (Window y0 (min (y0 + tile) H) x0 (min (x0 + tile) W))"
      using p(1) y0(2,3) x0(2,3) by (simp add: pixels_def)
    ultimately show "p \<in> (\<Union>w \<in> set (tile_windows H W tile overlap). pixels w)"
      by blast
  qed
qed

theorem tile_windows_cover_witness:
  "(0::int) < 3 \<and> (0::int) < 2 \<and> (0::int) < 2 \<and> (0::int) \<le> 1 \<and> (1::int) < 2
   \<and> (\<Union>w \<in> set (tile_windows 3 2 2 1). pixels w) = {0 ..< 3} \<times> {0 ..< 2}
   \<and> tile_windows 3 2 2 1
       = [Window 0 2 0 2, Window 0 2 1 2, Window 1 3 0 2, Window 1 3 1 2,
          Window 2 3 0 2, Window 2 3 1 2]"
proof -
  have "tile_windows 3 2 2 1
       = [Window 0 2 0 2, Window 0 2 1 2, Window 1 3 0 2, Window 1 3 1 2,
          Window 2 3 0 2, Window 2 3 1 2]"
    by code_simp
  then show ?thesis
    using tile_windows_cover [of 3 2 2 1] by simp
qed

lemma length_py_range_1: "length (py_range start stop 1) = nat (stop - start)"
proof (induction start stop "1::int" rule: py_range.induct)
  case (1 start stop)
  show ?case
  proof (cases "stop \<le> start")
    case True
    then show ?thesis by (subst py_range.simps) simp
  next
    case False
    then have "length (py_range start stop 1) = Suc (length (py_range (start + 1) stop 1))"
      by (subst py_range.simps) simp
    also have "\<dots> = Suc (nat (stop - (start + 1)))"
      using "1.hyps" False by simp
    also have "\<dots> = nat (stop - start)"
      using False by simp
    finally show ?thesis .
  qed
qed

lemma length_tile_windows:
  "length (tile_windows H W tile overlap)
     = length (py_range 0 H (max 1 (tile - overlap))) * length (py_range 0 W (max 1 (tile - overlap)))"
  by (simp add: tile_windows_def Let_def length_concat comp_def sum_list_triv)

text \<open>
  C7, as the code has it. Called with \<open>tile \<le> 0\<close> (and \<open>overlap \<ge> 0\<close>) the partitioner
  raises nothing: the stride is \<open>max(1, tile - overlap) = 1\<close> and it returns one window
  per pixel origin, \<open>H * W\<close> in all, each with \<open>y1 \<le> y0\<close> and \<open>x1 \<le> x0\<close>.
\<close>

theorem tile_partitioner_nonpositive_tile:
  assumes "tile \<le> 0" "0 \<le> overlap"
  shows "\<exists>ws. tile_partitioner H W tile overlap = Inr ws
            \<and> length ws = nat H * nat W
            \<and> (\<forall>w \<in> set ws. wy1 w \<le> wy0 w \<and> wx1 w \<le> wx0 w)"
proof -
  have step: "max 1 (tile - overlap) = 1"
    using assms by simp
  have "length (tile_windows H W tile overlap) = nat H * nat W"
    by (simp add: length_tile_windows step length_py_range_1)
  moreover have "wy1 w \<le> wy0 w \<and> wx1 w \<le> wx0 w"
    if "w \<in> set (tile_windows H W tile overlap)" for w
    using that assms(1) unfolding tile_windows_set by auto
  ultimately show ?thesis
    by (simp add: tile_partitioner_def)
qed

theorem tile_partitioner_nonpositive_tile_witness:
  "(0::int) \<le> 0 \<and> (0::int) \<le> 0
   \<and> (\<exists>ws. tile_partitioner 2 2 0 0 = Inr ws
            \<and> length ws = nat 2 * nat 2
            \<and> (\<forall>w \<in> set ws. wy1 w \<le> wy0 w \<and> wx1 w \<le> wx0 w))"
  using tile_partitioner_nonpositive_tile [of 0 0 2 2] by simp

text \<open>
  C7, as stated, fails: with \<open>tile = 0\<close> on a 2 by 2 image the partitioner returns four
  windows and no \<open>ConfigurationError\<close>, and \<open>detect_cars\<close> with a model that answers on
  every patch returns normally.
\<close>

theorem tile_partitioner_no_configuration_error:
  "tile_partitioner 2 2 0 0
     = Inr [Window 0 0 0 0, Window 0 0 1 1, Window 1 1 0 0, Window 1 1 1 1]
   \<and> tile_partitioner 2 2 0 0 \<noteq> Inl ConfigurationError
   \<and> detect_cars predict_last_empty example_names 2 2 0 0 False = Inr []"
  by code_simp

section \<open>Cross-tile deduplication\<close>

lemma set_greedy_keep: "set (greedy_keep suppresses xs) \<subseteq> set xs"
  by (induction suppresses xs rule: greedy_keep.induct) auto

lemma distinct_greedy_keep: "distinct xs \<Longrightarrow> distinct (greedy_keep suppresses xs)"
proof (induction suppresses xs rule: greedy_keep.induct)
  case (1 suppresses)
  show ?case by simp
next
  case (2 suppresses i rest)
  have "i \<notin> set (greedy_keep suppresses (filter (\<lambda>j. \<not> suppresses i j) rest))"
    using set_greedy_keep [of suppresses "filter (\<lambda>j. \<not> suppresses i j) rest"] "2.prems"
    by auto
  moreover have "distinct (greedy_keep suppresses (filter (\<lambda>j. \<not> suppresses i j) rest))"
    using "2.IH" "2.prems" by simp
  ultimately show ?case by simp
qed

lemma sorted_greedy_keep:
  "sorted (map f xs) \<Longrightarrow> sorted (map f (greedy_keep suppresses xs))"
proof (induction suppresses xs rule: greedy_keep.induct)
  case (1 suppresses)
  show ?case by simp
next
  case (2 suppresses i rest)
  let ?rest = "filter (\<lambda>j. \<not> suppresses i j) rest"
  have "sorted (map f ?rest)"
    using "2.prems" by (simp add: sorted_filter)
  then have "sorted (map f (greedy_keep suppresses ?rest))"
    by (rule "2.IH")
  moreover have "f i \<le> f y" if "y \<in> set (greedy_keep suppresses ?rest)" for y
  proof -
    from that have "y \<in> set rest"
      using set_greedy_keep [of suppresses ?rest] by auto
    with "2.prems" show ?thesis by auto
  qed
  ultimately show ?case by auto
qed

lemma greedy_keep_unsuppressed:
  "sorted_wrt (\<lambda>a b. \<not> suppresses a b) (greedy_keep suppresses xs)"
proof (induction suppresses xs rule: greedy_keep.induct)
  case (1 suppresses)
  show ?case by simp
next
  case (2 suppresses i rest)
  let ?rest = "filter (\<lambda>j. \<not> suppresses i j) rest"
  have "\<not> suppresses i y" if "y \<in> set (greedy_keep suppresses ?rest)" for y
  proof -
    from that have "y \<in> set ?rest"
      using set_greedy_keep [of suppresses ?rest] by blast
    then show ?thesis by simp
  qed
  then have "\<forall>y \<in> set (greedy_keep suppresses ?rest). \<not> suppresses i y"
    by blast
  moreover have "sorted_wrt (\<lambda>a b. \<not> suppresses a b) (greedy_keep suppresses ?rest)"
    by (rule "2.IH")
  ultimately show ?case
    by (simp only: greedy_keep.simps sorted_wrt.simps)
qed

lemma greedy_keep_fixpoint:
  "sorted_wrt (\<lambda>a b. \<not> suppresses a b) xs \<Longrightarrow> greedy_keep suppresses xs = xs"
proof (induction xs)
  case Nil
  show ?case by simp
next
  case (Cons i rest)
  then have "filter (\<lambda>j. \<not> suppresses i j) rest = rest"
    by (auto intro: filter_True)
  with Cons show ?case by simp
qed

lemma nms_in_range: "set (nms boxes scores thr) \<subseteq> {0 ..< length boxes}"
proof -
  have "set (nms boxes scores thr) \<subseteq> set (sort_key (\<lambda>i. - (scores ! i)) [0 ..< length boxes])"
    unfolding nms_def by (rule set_greedy_keep)
  then show ?thesis by simp
qed

lemma nms_distinct: "distinct (nms boxes scores thr)"
  unfolding nms_def by (rule distinct_greedy_keep) simp

lemma nms_sorted: "sorted (map (\<lambda>i. - (scores ! i)) (nms boxes scores thr))"
  unfolding nms_def by (rule sorted_greedy_keep) simp

lemma nms_unsuppressed:
  "sorted_wrt (\<lambda>i j. \<not> thr < iou (boxes ! i) (boxes ! j)) (nms boxes scores thr)"
  unfolding nms_def by (rule greedy_keep_unsuppressed)

lemma mset_select_subset:
  assumes "distinct ks" "set ks \<subseteq> {0 ..< length xs}"
  shows "mset (map (\<lambda>i. xs ! i) ks) \<subseteq># mset xs"
proof -
  have "mset_set (set ks) \<subseteq># mset_set {0 ..< length xs}"
    using assms(2) by (rule subset_imp_msubset_mset_set) simp
  moreover have "mset_set (set ks) = mset ks"
    using assms(1) by (rule mset_set_set)
  ultimately have "mset ks \<subseteq># mset [0 ..< length xs]"
    by simp
  then have "image_mset (\<lambda>i. xs ! i) (mset ks) \<subseteq># image_mset (\<lambda>i. xs ! i) (mset [0 ..< length xs])"
    by (rule image_mset_subseteq_mono)
  then have "mset (map (\<lambda>i. xs ! i) ks) \<subseteq># mset (map (\<lambda>i. xs ! i) [0 ..< length xs])"
    by (simp only: mset_map)
  then show ?thesis
    by (simp only: map_nth)
qed


lemma nms_fixpoint:
  assumes srt: "sorted (map uminus scores)"
    and uns: "sorted_wrt (\<lambda>i j. \<not> thr < iou (boxes ! i) (boxes ! j)) [0 ..< length boxes]"
    and len: "length scores = length boxes"
  shows "nms boxes scores thr = [0 ..< length boxes]"
proof -
  have "map (\<lambda>i. - (scores ! i)) [0 ..< length boxes] = map uminus (map (\<lambda>i. scores ! i) [0 ..< length scores])"
    by (simp add: len)
  also have "\<dots> = map uminus scores"
    by (simp only: map_nth)
  finally have "sorted (map (\<lambda>i. - (scores ! i)) [0 ..< length boxes])"
    using srt by simp
  then have "sort_key (\<lambda>i. - (scores ! i)) [0 ..< length boxes] = [0 ..< length boxes]"
    by (rule sort_key_id_if_sorted)
  then show ?thesis
    unfolding nms_def using greedy_keep_fixpoint [OF uns] by simp
qed

lemma dedupe_fixpoint:
  fixes ds :: "(box \<times> rat) list" and thr :: rat
  defines "ks \<equiv> nms (map fst ds) (map snd ds) thr"
  defines "out \<equiv> map (\<lambda>i. ds ! i) ks"
  shows "nms (map fst out) (map snd out) thr = [0 ..< length out]"
proof -
  have rng: "k < length ds" if "k \<in> set ks" for k
    using that nms_in_range [of "map fst ds" "map snd ds" thr] by (auto simp: ks_def)
  have nth_out: "out ! a = ds ! (ks ! a)" if "a < length ks" for a
    using that by (simp add: out_def)
  have "map uminus (map snd out) = map (\<lambda>i. - (map snd ds ! i)) ks"
    using rng by (simp add: out_def)
  then have srt: "sorted (map uminus (map snd out))"
    using nms_sorted [of "map snd ds" "map fst ds" thr] by (simp add: ks_def)
  have "sorted_wrt (\<lambda>i j. \<not> thr < iou (map fst ds ! i) (map fst ds ! j)) ks"
    unfolding ks_def by (rule nms_unsuppressed)
  then have "sorted_wrt (\<lambda>i j. \<not> thr < iou (map fst ds ! i) (map fst ds ! j))
               (map (\<lambda>a. ks ! a) [0 ..< length ks])"
    by (simp only: map_nth)
  then have "sorted_wrt (\<lambda>a b. \<not> thr < iou (map fst ds ! (ks ! a)) (map fst ds ! (ks ! b)))
               [0 ..< length ks]"
    by (simp only: sorted_wrt_map)
  then have "sorted_wrt (\<lambda>a b. \<not> thr < iou (map fst out ! a) (map fst out ! b)) [0 ..< length ks]"
  proof (rule sorted_wrt_mono_rel [rotated])
    fix a b
    assume a: "a \<in> set [0 ..< length ks]" and b: "b \<in> set [0 ..< length ks]"
      and h: "\<not> thr < iou (map fst ds ! (ks ! a)) (map fst ds ! (ks ! b))"
    have "ks ! a < length ds" "ks ! b < length ds"
      using a b rng by simp_all
    then show "\<not> thr < iou (map fst out ! a) (map fst out ! b)"
      using a b h by (simp add: out_def)
  qed
  then have uns: "sorted_wrt (\<lambda>a b. \<not> thr < iou (map fst out ! a) (map fst out ! b))
                    [0 ..< length (map fst out)]"
    by (simp add: out_def)
  have "nms (map fst out) (map snd out) thr = [0 ..< length (map fst out)]"
    by (rule nms_fixpoint [OF srt uns]) simp
  then show ?thesis by simp
qed

text \<open>
  C3. The cross-tile greedy non-max suppression is idempotent (run on its own output it
  returns that output unchanged), never returns more detections than it was given, and
  returns only detections of its input, each at most as often as the input has it.
\<close>

theorem dedupe_idempotent_subset:
  "dedupe thr (dedupe thr ds) = dedupe thr ds
   \<and> length (dedupe thr ds) \<le> length ds
   \<and> set (dedupe thr ds) \<subseteq> set ds
   \<and> mset (dedupe thr ds) \<subseteq># mset ds"
proof (intro conjI)
  let ?ks = "nms (map fst ds) (map snd ds) thr"
  have rng: "set ?ks \<subseteq> {0 ..< length (map fst ds)}"
    by (rule nms_in_range)
  have dst: "distinct ?ks"
    by (rule nms_distinct)
  show "dedupe thr (dedupe thr ds) = dedupe thr ds"
  proof -
    have "dedupe thr (dedupe thr ds)
            = map (\<lambda>i. dedupe thr ds ! i) [0 ..< length (dedupe thr ds)]"
      using dedupe_fixpoint [of ds thr] by (simp add: dedupe_def)
    then show ?thesis
      by (simp only: map_nth)
  qed
  show sub: "mset (dedupe thr ds) \<subseteq># mset ds"
    unfolding dedupe_def using dst rng by (intro mset_select_subset) simp_all
  then show "length (dedupe thr ds) \<le> length ds"
    using size_mset_mono by fastforce
  show "set (dedupe thr ds) \<subseteq> set ds"
    using sub by (rule set_mset_mono [of "mset (dedupe thr ds)" "mset ds", simplified])
qed

text \<open>Two boxes with IoU 0.5 and confidences 0.6 and 0.8: only the second survives.\<close>

lemma dedupe_example:
  "iou (0, 0, 10, 10) (0, 0, 10, 5) = 1 / 2
   \<and> dedupe (35 / 100) [((0, 0, 10, 10), 6 / 10), ((0, 0, 10, 5), 8 / 10)]
       = [((0, 0, 10, 5), 8 / 10)]"
  by code_simp

section \<open>Scale-back and size filters\<close>

lemma post_loop_in_range:
  "\<forall>i \<in> set keep. i < length raws \<Longrightarrow>
   post_loop cls_name_of scale raws keep
     = Inr (List.map_filter (emit cls_name_of scale) (map (\<lambda>i. raws ! i) keep))"
  by (induction keep) (auto simp add: List.map_filter_simps split: option.splits)

lemma map_filter_emit:
  "List.map_filter (emit cls_name_of scale) rs
     = map (to_detection cls_name_of)
         (filter (\<lambda>r. plausible (fst r))
            (map (\<lambda>r. (scale_back scale (fst r), snd r))
               (filter (is_vehicle cls_name_of) rs)))"
proof (induction rs)
  case Nil
  show ?case by (simp add: List.map_filter_simps)
next
  case (Cons r rs)
  obtain b score cls where r: "r = (b, score, cls)"
    by (cases r) auto
  show ?case
    using Cons by (simp add: r List.map_filter_simps emit_def Let_def is_vehicle_def)
qed

text \<open>
  C6, as the code has it. The global non-max suppression runs on the collected rows, whose
  coordinates are those of the image that was tiled (the upscaled one). Of the rows it
  keeps, those of a vehicle class are scaled back, once; the size and aspect tests then
  read the scaled-back coordinates, and the detection returned is built from them.
\<close>

theorem detect_tail_stages:
  "detect_tail cls_name_of scale raws
     = Inr (map (to_detection cls_name_of)
             (filter (\<lambda>r. plausible (fst r))
                (map (\<lambda>r. (scale_back scale (fst r), snd r))
                   (filter (is_vehicle cls_name_of)
                      (map (\<lambda>i. raws ! i)
                         (nms (map fst raws) (map (\<lambda>r. fst (snd r)) raws) (35 / 100)))))))"
proof (cases "raws = []")
  case True
  then show ?thesis
    by (simp add: detect_tail_def nms_def)
next
  case False
  have "\<forall>i \<in> set (nms (map fst raws) (map (\<lambda>r. fst (snd r)) raws) (35 / 100)). i < length raws"
    using nms_in_range [of "map fst raws" "map (\<lambda>r. fst (snd r)) raws" "35 / 100"] by auto
  then show ?thesis
    using False by (simp add: detect_tail_def post_loop_in_range map_filter_emit)
qed

text \<open>
  C6, as stated, fails: the size tests do not read upscaled coordinates. With scale 2, a
  box of 10 by 10 upscaled pixels passes the tests on its upscaled coordinates and is
  dropped by the code; a box of 200 by 200 fails them there and is returned by the code.
\<close>

theorem size_filter_after_scale_back:
  "plausible (0, 0, 10, 10)
   \<and> \<not> plausible (scale_back 2 (0, 0, 10, 10))
   \<and> detect_tail example_names 2 [((0, 0, 10, 10), 9 / 10, 3)] = Inr []
   \<and> \<not> plausible (0, 0, 200, 200)
   \<and> plausible (scale_back 2 (0, 0, 200, 200))
   \<and> detect_tail example_names 2 [((0, 0, 200, 200), 9 / 10, 3)]
       = Inr [\<lparr>d_x1 = 0, d_y1 = 0, d_x2 = 100, d_y2 = 100, d_conf = 9 / 10,
               d_cls_id = 3, d_cls_name = ''car''\<rparr>]"
  by code_simp

section \<open>A failing tile\<close>

lemma collect_tiles_fails:
  "\<exists>w \<in> set ws. \<exists>e. predict w = Inl e \<Longrightarrow> \<exists>e. collect_tiles predict ws acc = Inl e"
proof (induction ws arbitrary: acc)
  case Nil
  then show ?case by simp
next
  case (Cons w ws)
  show ?case
  proof (cases "predict w")
    case (Inl e)
    then show ?thesis by simp
  next
    case (Inr r)
    with Cons.prems have "\<exists>w \<in> set ws. \<exists>e. predict w = Inl e"
      by auto
    then have "\<exists>e. collect_tiles predict ws (acc @ map (shift_box w) r) = Inl e"
      by (rule Cons.IH)
    with Inr show ?thesis by simp
  qed
qed

lemma gate_zero_cars:
  "blend 0 sa sc occupancy min_coverage blend_strength
     = \<lparr>combined = sa, weight_cars = 0, reliability_note = Unreliable\<rparr>"
  by (simp add: blend_def Let_def)

text \<open>
  C8, as the code has it. If the model call fails on any tile, \<open>detect_cars\<close> ends with
  that failure; the caller's handler leaves the area with no detections at all, and the
  area's estimate is still produced, from the area alone: \<open>n_cars = 0\<close>, the Unreliable
  note, \<open>combined = spots_from_area\<close> (for an occupancy in \<open>(0, 1]\<close> and an area \<open>\<ge> 0\<close>).
\<close>

theorem failed_tile_discards_area_detections:
  assumes fails: "\<exists>w \<in> set (tile_windows (upscaled_dim True H W H) (upscaled_dim True H W W) tile overlap).
                    \<exists>e. predict w = Inl e"
    and occ: "0 < occupancy" "occupancy \<le> 1"
    and area: "0 \<le> area_m2"
  shows "(\<exists>e. detect_cars predict cls_name_of H W tile overlap True = Inl e)
       \<and> app_detections predict cls_name_of H W tile overlap = []
       \<and> (\<exists>r. area_estimate predict cls_name_of H W tile overlap area_m2 occupancy
                  min_coverage blend_strength = Inr r
              \<and> r_n_cars r = 0
              \<and> combined (r_blend r) = r_spots_from_area r
              \<and> weight_cars (r_blend r) = 0
              \<and> reliability_note (r_blend r) = Unreliable)"
proof -
  obtain e where e: "collect_tiles predict
      (tile_windows (upscaled_dim True H W H) (upscaled_dim True H W W) tile overlap) [] = Inl e"
    using collect_tiles_fails [OF fails] by blast
  then have dc: "detect_cars predict cls_name_of H W tile overlap True = Inl e"
    by (simp add: detect_cars_def Let_def)
  then have app: "app_detections predict cls_name_of H W tile overlap = []"
    by (simp add: app_detections_def)
  have cars: "estimate_spots_from_cars 0 occupancy = Inr 0"
    using occ by (simp add: estimate_spots_from_cars_def)
  obtain sa where sa: "estimate_spots_from_area area_m2 30 = Inr sa"
    using area by (simp add: estimate_spots_from_area_def)
  have "area_estimate predict cls_name_of H W tile overlap area_m2 occupancy min_coverage blend_strength
          = Inr \<lparr>r_n_cars = 0, r_spots_from_cars = 0, r_spots_from_area = sa,
                 r_uncertainty = capacity_uncertainty sa 0,
                 r_blend = \<lparr>combined = sa, weight_cars = 0, reliability_note = Unreliable\<rparr>\<rparr>"
    by (simp add: area_estimate_def Let_def app cars sa gate_zero_cars)
  with dc app show ?thesis by simp
qed

lemma windows_2048:
  "tile_windows (upscaled_dim True 1024 1024 1024) (upscaled_dim True 1024 1024 1024) 1024 256
     = [Window 0 1024 0 1024, Window 0 1024 768 1792, Window 0 1024 1536 2048,
        Window 768 1792 0 1024, Window 768 1792 768 1792, Window 768 1792 1536 2048,
        Window 1536 2048 0 1024, Window 1536 2048 768 1792, Window 1536 2048 1536 2048]"
  by code_simp

lemma last_fails: "predict_last_fails (Window 1536 2048 1536 2048) = Inl InferenceFailure"
  by (simp add: predict_last_fails_def)

theorem failed_tile_discards_area_detections_witness:
  "(\<exists>w \<in> set (tile_windows (upscaled_dim True 1024 1024 1024) (upscaled_dim True 1024 1024 1024) 1024 256).
       \<exists>e. predict_last_fails w = Inl e)
   \<and> (0::rat) < 6 / 10 \<and> (6 / 10 :: rat) \<le> 1 \<and> (0::rat) \<le> 1800
   \<and> (\<exists>e. detect_cars predict_last_fails example_names 1024 1024 1024 256 True = Inl e)
   \<and> app_detections predict_last_fails example_names 1024 1024 1024 256 = []
   \<and> (\<exists>r. area_estimate predict_last_fails example_names 1024 1024 1024 256 1800 (6 / 10)
                  (5 / 100) (6 / 10) = Inr r
              \<and> r_n_cars r = 0
              \<and> combined (r_blend r) = r_spots_from_area r
              \<and> weight_cars (r_blend r) = 0
              \<and> reliability_note (r_blend r) = Unreliable)"
proof -
  have h: "\<exists>w \<in> set (tile_windows (upscaled_dim True 1024 1024 1024) (upscaled_dim True 1024 1024 1024) 1024 256).
             \<exists>e. predict_last_fails w = Inl e"
    unfolding windows_2048 using last_fails by simp
  show ?thesis
    using h failed_tile_discards_area_detections [OF h, of "6 / 10" 1800 example_names "5 / 100" "6 / 10"]
    by simp
qed

text \<open>
  C8, as stated, fails: the first tile holds a car and only the last tile raises, yet
  the area is left with no detection; had the last tile answered no boxes, the car
  would be returned.
\<close>

theorem one_bad_tile_aborts_detection:
  "predict_last_fails (Window 0 1024 0 1024) = Inr [example_car]
   \<and> detect_cars predict_last_fails example_names 1024 1024 1024 256 True = Inl InferenceFailure
   \<and> app_detections predict_last_fails example_names 1024 1024 1024 256 = []
   \<and> app_detections predict_last_empty example_names 1024 1024 1024 256
       = [\<lparr>d_x1 = 50, d_y1 = 50, d_x2 = 80, d_y2 = 110, d_conf = 9 / 10,
           d_cls_id = 3, d_cls_name = ''car''\<rparr>]"
  by code_simp

end
